theory Spec2Isabelle
  imports Main
begin

section \<open>Data model\<close>

text \<open>
  The mappings editor library of the index-management plugin (the third document of
  \<^verbatim>\<open>boost_parameter.tsx\<close>) flattens the recursive \<^verbatim>\<open>properties\<close> / \<^verbatim>\<open>fields\<close> tree of an
  index mapping into a table keyed by generated identifiers, and back.

  A \<^verbatim>\<open>DataType\<close> is one of a set of string literals; it is kept as a string, so that a type
  the library does not know is an ordinary input.  \<^verbatim>\<open>ChildFieldName\<close> is the union
  \<^verbatim>\<open>'fields' | 'properties'\<close>.
\<close>

type_synonym DataType = string

datatype ChildFieldName = Fields_name | Properties_name

text \<open>
  \<^verbatim>\<open>Omit<Field, 'name'>\<close>: the value stored under a field's name in a \<^verbatim>\<open>Fields\<close> object.
  It has a type, the two optional child containers and any number of further parameters,
  whose values the library passes through.  A value can also hold a fields object under
  the key \<^verbatim>\<open>undefined\<close>: \<^verbatim>\<open>deNormalize\<close> writes such a member for a row that has \<^verbatim>\<open>childFields\<close>
  but no \<^verbatim>\<open>childFieldsName\<close>, and no function reads it.  The members are kept apart by
  their keys: the parameters are the members other than \<^verbatim>\<open>type\<close>, \<^verbatim>\<open>properties\<close> and
  \<^verbatim>\<open>fields\<close>, and other than \<^verbatim>\<open>undefined\<close> when that member holds a fields object.  A member
  \<^verbatim>\<open>name\<close> of a value is one of its parameters.
  A \<^verbatim>\<open>Fields\<close> object is the list of its entries in \<^verbatim>\<open>Object.entries\<close> order; an optional
  member that is absent is \<open>None\<close>, and an empty container \<^verbatim>\<open>{}\<close> is \<open>Some []\<close>.  The keys
  of an object are distinct; the functions below are defined on every list, and the
  statements that need distinct names say so.  JavaScript enumerates keys that are array
  indices before the others; the order of the entries plays no role in whether two objects
  are structurally equal, and the model keeps the entries in the order given.
\<close>

datatype FieldValue =
  FieldValue (v_type: DataType) (v_params: "(string \<times> string) list")
    (v_properties: "(string \<times> FieldValue) list option")
    (v_fields: "(string \<times> FieldValue) list option")
    (v_undefined: "(string \<times> FieldValue) list option")

type_synonym Fields = "(string \<times> FieldValue) list"

text \<open>
  \<^verbatim>\<open>Field\<close>: a field value together with its \<^verbatim>\<open>name\<close>.  The same shape serves for the
  \<^verbatim>\<open>source\<close> of a row, whose two containers have been removed.
\<close>

record Field =
  name :: string
  ftype :: DataType
  params :: "(string \<times> string) list"
  properties :: "Fields option"
  fields_member :: "Fields option"
  undefined_member :: "Fields option"

record FieldMeta =
  childFieldsName :: "ChildFieldName option"
  canHaveChildFields :: bool
  hasChildFields :: bool
  canHaveMultiFields :: bool
  hasMultiFields :: bool
  isExpanded :: bool
  childFields :: "nat list option"

text \<open>
  Identifiers come from \<^verbatim>\<open>uuid.v4()\<close>.  The model replaces the random source by a
  counter: the identifiers of a run are the numbers \<open>0, 1, 2, \<dots>\<close> in the order in which
  \<^verbatim>\<open>getUniqueId\<close> is called, so two calls never return the same identifier.  An
  identifier is a non-empty string and so truthy: the test \<^verbatim>\<open>field.parentId ? \<dots>\<close> is the
  test whether the row has a \<^verbatim>\<open>parentId\<close>.
\<close>

record NormalizedField = FieldMeta +
  id_field :: nat
  parentId :: "nat option"
  nestedDepth :: nat
  isMultiField :: bool
  path :: string
  source :: Field

record NormalizedFields =
  byId :: "nat \<rightharpoonup> NormalizedField"
  rootLevelFields :: "nat list"
  maxNestedDepth :: nat

section \<open>Field metadata\<close>

definition getChildFieldsName :: "DataType \<Rightarrow> ChildFieldName option" where
  "getChildFieldsName dataType =
     (if dataType = ''text'' \<or> dataType = ''keyword'' then Some Fields_name
      else if dataType = ''object'' \<or> dataType = ''nested'' then Some Properties_name
      else None)"

text \<open>
  \<^verbatim>\<open>field[childFieldsName]\<close>, with \<open>None\<close> for \<^verbatim>\<open>undefined\<close>.  The code reads the member only
  behind a capability flag or a "has" flag, so only where \<^verbatim>\<open>childFieldsName\<close> is defined.
\<close>

definition member :: "Field \<Rightarrow> ChildFieldName option \<Rightarrow> Fields option" where
  "member field n =
     (case n of None \<Rightarrow> None
      | Some Fields_name \<Rightarrow> fields_member field
      | Some Properties_name \<Rightarrow> properties field)"

text \<open>
  \<^verbatim>\<open>Boolean(field[childFieldsName!]) && Object.keys(field[childFieldsName!]!).length > 0\<close>:
  the container is there and has at least one entry.
\<close>

definition nonEmptyMember :: "Field \<Rightarrow> ChildFieldName option \<Rightarrow> bool" where
  "nonEmptyMember field n = (case member field n of None \<Rightarrow> False | Some es \<Rightarrow> 0 < length es)"

text \<open>
  \<^verbatim>\<open>getFieldMeta(field, isMultiField?)\<close>.  The optional flag is a boolean here: the code
  only tests its truthiness, and \<^verbatim>\<open>undefined\<close> behaves as \<^verbatim>\<open>false\<close>.  The result carries no
  \<^verbatim>\<open>childFields\<close> member.
\<close>

definition getFieldMeta :: "Field \<Rightarrow> bool \<Rightarrow> FieldMeta" where
  "getFieldMeta field isMultiField' =
     (let childFieldsName = getChildFieldsName (ftype field);
          canHaveChildFields =
            (if isMultiField' then False else childFieldsName = Some Properties_name);
          hasChildFields =
            (if isMultiField' then False
             else canHaveChildFields \<and> nonEmptyMember field childFieldsName);
          canHaveMultiFields =
            (if isMultiField' then False else childFieldsName = Some Fields_name);
          hasMultiFields =
            (if isMultiField' then False
             else canHaveMultiFields \<and> nonEmptyMember field childFieldsName)
      in \<lparr> childFieldsName = childFieldsName,
           canHaveChildFields = canHaveChildFields,
           hasChildFields = hasChildFields,
           canHaveMultiFields = canHaveMultiFields,
           hasMultiFields = hasMultiFields,
           isExpanded = False,
           childFields = None \<rparr>)"

section \<open>Normalization\<close>

text \<open>\<^verbatim>\<open>paths.join('.')\<close> and \<^verbatim>\<open>s.split('.')\<close> of JavaScript.\<close>

fun join_dot :: "string list \<Rightarrow> string" where
  "join_dot [] = []"
| "join_dot [x] = x"
| "join_dot (x # y # ys) = x @ ''.'' @ join_dot (y # ys)"

fun split_dot :: "string \<Rightarrow> string list" where
  "split_dot [] = [[]]"
| "split_dot (c # cs) =
     (if c = CHR ''.'' then [] # split_dot cs
      else (c # hd (split_dot cs)) # tl (split_dot cs))"

text \<open>\<^verbatim>\<open>paths.length ? `${paths.join('.')}.${propName}` : propName\<close>\<close>

definition path_of :: "string list \<Rightarrow> string \<Rightarrow> string" where
  "path_of paths propName =
     (if length paths \<noteq> 0 then join_dot paths @ ''.'' @ propName else propName)"

text \<open>
  \<^verbatim>\<open>{ name: propName, ...value }\<close>.  The spread comes second: a value that carries a member
  \<^verbatim>\<open>name\<close> overwrites the name taken from the key.  In a \<^verbatim>\<open>Field\<close> the name is a member of
  its own, so it leaves the parameters.
\<close>

definition with_name :: "string \<Rightarrow> FieldValue \<Rightarrow> Field" where
  "with_name propName v =
     \<lparr> name = (case map_of (v_params v) ''name'' of None \<Rightarrow> propName | Some n \<Rightarrow> n),
       ftype = v_type v,
       params = filter (\<lambda>(k, x). k \<noteq> ''name'') (v_params v),
       properties = v_properties v, fields_member = v_fields v,
       undefined_member = v_undefined v \<rparr>"

text \<open>\<^verbatim>\<open>const { properties, fields, ...rest } = field\<close>\<close>

definition rest_of :: "Field \<Rightarrow> Field" where
  "rest_of field = field\<lparr> properties := None, fields_member := None \<rparr>"

text \<open>
  The object literal
  \<^verbatim>\<open>{ id, parentId, nestedDepth, isMultiField, path, source: rest, ...meta }\<close>.
\<close>

definition normalizedField_of ::
  "nat \<Rightarrow> nat option \<Rightarrow> nat \<Rightarrow> bool \<Rightarrow> string \<Rightarrow> Field \<Rightarrow> FieldMeta \<Rightarrow> NormalizedField" where
  "normalizedField_of ident parentId' nestedDepth' isMultiField' path' rest meta =
     \<lparr> childFieldsName = childFieldsName meta,
       canHaveChildFields = canHaveChildFields meta,
       hasChildFields = hasChildFields meta,
       canHaveMultiFields = canHaveMultiFields meta,
       hasMultiFields = hasMultiFields meta,
       isExpanded = isExpanded meta,
       childFields = childFields meta,
       id_field = ident,
       parentId = parentId',
       nestedDepth = nestedDepth',
       isMultiField = isMultiField',
       path = path',
       source = rest \<rparr>"

text \<open>
  What a run of \<^verbatim>\<open>normalize\<close> mutates: the position in the identifier stream, the
  object \<^verbatim>\<open>to\<close> that every call of \<^verbatim>\<open>normalizeFields\<close> receives and returns, and the
  closure variable \<^verbatim>\<open>maxNestedDepth\<close>.
\<close>

record NormalizeState =
  uuid_next :: nat
  to_byId :: "nat \<rightharpoonup> NormalizedField"
  max_depth :: nat

text \<open>
  \<^verbatim>\<open>normalizeFields(props, to, paths, idsArray, nestedDepth, isMultiField, parentId)\<close>.
  Every call site passes an empty \<^verbatim>\<open>idsArray\<close>, so the model returns the identifiers the
  call pushes, in order, together with the state.  The row is stored after the recursive
  call on the child container, as in the source.
\<close>

function normalizeFields ::
  "Fields \<Rightarrow> NormalizeState \<Rightarrow> string list \<Rightarrow> nat \<Rightarrow> bool \<Rightarrow> nat option
     \<Rightarrow> nat list \<times> NormalizeState" where
  "normalizeFields [] st paths nestedDepth' isMultiField' parentId' = ([], st)"
| "normalizeFields ((propName, v) # props) st paths nestedDepth' isMultiField' parentId' =
     (let ident = uuid_next st;
          st1 = st\<lparr> uuid_next := Suc ident \<rparr>;
          field = with_name propName v;
          meta = getFieldMeta field isMultiField';
          (meta', st2) =
            (if hasChildFields meta \<or> hasMultiFields meta then
               (let nextDepth =
                      (if canHaveChildFields meta \<or> canHaveMultiFields meta
                       then nestedDepth' + 1 else nestedDepth');
                    st1' = st1\<lparr> max_depth := max (max_depth st1) nextDepth \<rparr>;
                    (ids, st') =
                      normalizeFields (the (member field (childFieldsName meta))) st1'
                        (paths @ [propName]) nextDepth (canHaveMultiFields meta) (Some ident)
                in (meta\<lparr> childFields := Some ids \<rparr>, st'))
             else (meta, st1));
          normalizedField =
            normalizedField_of ident parentId' nestedDepth' isMultiField'
              (path_of paths propName) (rest_of field) meta';
          st3 = st2\<lparr> to_byId := (to_byId st2)(ident \<mapsto> normalizedField) \<rparr>;
          (ids', st4) = normalizeFields props st3 paths nestedDepth' isMultiField' parentId'
      in (ident # ids', st4))"
  by pat_completeness auto
termination
proof (relation "measure (\<lambda>(props, _). size_list (size_prod (\<lambda>_. 0) size) props)")
  show "wf (measure (\<lambda>(props, _). size_list (size_prod (\<lambda>_. 0) size) props))"
    by simp
next
  fix propName v props and st :: NormalizeState and isMultiField' :: bool
  fix x xa xb xc
  assume "xb = with_name propName v" and "xc = getFieldMeta xb isMultiField'"
    and "hasChildFields xc \<or> hasMultiFields xc"
  then have "\<exists>es. member xb (childFieldsName xc) = Some es
      \<and> (v_properties v = Some es \<or> v_fields v = Some es)"
    by (auto simp: getFieldMeta_def nonEmptyMember_def member_def with_name_def Let_def
        split: if_splits option.splits ChildFieldName.splits)
  then obtain es where es: "member xb (childFieldsName xc) = Some es"
    "v_properties v = Some es \<or> v_fields v = Some es" by blast
  have "size_list (size_prod (\<lambda>_. 0) size) es < size v"
    using es(2) by (cases v) auto
  then show "\<And>paths nestedDepth' parentId' xd xe.
       ((the (member xb (childFieldsName xc)), xe),
        ((propName, v) # props, st, paths, nestedDepth', isMultiField', parentId'))
       \<in> measure (\<lambda>(props, _). size_list (size_prod (\<lambda>_. 0) size) props)"
    using es(1) by simp
qed auto

definition normalize :: "Fields \<Rightarrow> NormalizedFields" where
  "normalize fieldsToNormalize =
     (let (ids, st) =
            normalizeFields fieldsToNormalize
              \<lparr> uuid_next = 0, to_byId = Map.empty, max_depth = 0 \<rparr> [] 0 False None
      in \<lparr> byId = to_byId st, rootLevelFields = ids,
           maxNestedDepth = max_depth st \<rparr>)"

section \<open>Walks over the table\<close>

text \<open>
  The walks below follow \<^verbatim>\<open>childFields\<close> through the table and do not return on a table
  with a cycle.  They take the number of nested calls they may make as fuel; \<open>None\<close> is
  a walk that did not finish within it.  A finished walk is \<open>Some (Inr result)\<close>, or
  \<open>Some (Inl e)\<close> when the code throws: reading a member of \<^verbatim>\<open>undefined\<close> is a
  \<^verbatim>\<open>TypeError\<close>, and \<^verbatim>\<open>getFieldConfig\<close> throws an \<^verbatim>\<open>Error\<close> with a message.
\<close>

datatype error = TypeError | Error string

text \<open>
  \<^verbatim>\<open>to[name] = field\<close> on an object given as its own entries.  An entry of that key is
  replaced.  Without one, the assignment adds an entry, except for the key \<^verbatim>\<open>__proto__\<close>: that
  assignment runs the setter that \<^verbatim>\<open>Object.prototype\<close> provides, which makes \<^verbatim>\<open>field\<close> the
  prototype of \<^verbatim>\<open>to\<close> and adds no entry.  The prototype of an object is not part of the
  model; only own entries are.
\<close>

fun assign :: "string \<Rightarrow> 'a \<Rightarrow> (string \<times> 'a) list \<Rightarrow> (string \<times> 'a) list" where
  "assign k v [] = (if k = ''__proto__'' then [] else [(k, v)])"
| "assign k v ((k', v') # es) = (if k = k' then (k, v) # es else (k', v') # assign k v es)"

text \<open>\<^verbatim>\<open>const { name, ...normalizedField } = source\<close>\<close>

definition without_name :: "Field \<Rightarrow> FieldValue" where
  "without_name src =
     FieldValue (ftype src) (params src) (properties src) (fields_member src)
       (undefined_member src)"

text \<open>
  \<^verbatim>\<open>field[childFieldsName!] = sub\<close> for a field value.  With no \<^verbatim>\<open>childFieldsName\<close> the key
  is the string \<^verbatim>\<open>undefined\<close>, and the fields object replaces a parameter of that name.
\<close>

fun set_member :: "ChildFieldName option \<Rightarrow> Fields \<Rightarrow> FieldValue \<Rightarrow> FieldValue" where
  "set_member (Some Fields_name) sub (FieldValue t ps pr fl un) =
     FieldValue t ps pr (Some sub) un"
| "set_member (Some Properties_name) sub (FieldValue t ps pr fl un) =
     FieldValue t ps (Some sub) fl un"
| "set_member None sub (FieldValue t ps pr fl un) =
     FieldValue t (filter (\<lambda>(k, x). k \<noteq> ''undefined'') ps) pr fl (Some sub)"

text \<open>
  \<^verbatim>\<open>deNormalizePaths(ids, to)\<close>.  The source stores \<^verbatim>\<open>field\<close> in \<^verbatim>\<open>to\<close> and then fills the
  container of the same object; the model fills the container first and stores the
  finished value, which is the object \<^verbatim>\<open>to[name]\<close> refers to when the call returns.
\<close>

fun deNormalizePaths ::
  "nat \<Rightarrow> (nat \<rightharpoonup> NormalizedField) \<Rightarrow> nat list \<Rightarrow> Fields \<Rightarrow> (error + Fields) option" where
  "deNormalizePaths 0 tbl ids to = None"
| "deNormalizePaths (Suc fuel) tbl [] to = Some (Inr to)"
| "deNormalizePaths (Suc fuel) tbl (i # ids) to =
     (case tbl i of
        None \<Rightarrow> Some (Inl TypeError)
      | Some row \<Rightarrow>
          (case childFields row of
             None \<Rightarrow>
               deNormalizePaths (Suc fuel) tbl ids
                 (assign (name (source row)) (without_name (source row)) to)
           | Some cs \<Rightarrow>
               (case deNormalizePaths fuel tbl cs [] of
                  None \<Rightarrow> None
                | Some (Inl e) \<Rightarrow> Some (Inl e)
                | Some (Inr sub) \<Rightarrow>
                    deNormalizePaths (Suc fuel) tbl ids
                      (assign (name (source row))
                         (set_member (childFieldsName row) sub (without_name (source row)))
                         to))))"

definition deNormalize :: "nat \<Rightarrow> NormalizedFields \<Rightarrow> (error + Fields) option" where
  "deNormalize fuel normalized =
     deNormalizePaths fuel (byId normalized) (rootLevelFields normalized) []"

text \<open>
  \<^verbatim>\<open>updateFieldsPathAfterFieldNameChange(field, byId)\<close>.  Two table objects are live
  during the call: the caller's \<^verbatim>\<open>byId\<close> and the copy \<^verbatim>\<open>updatedById = { ...byId }\<close>.  The
  store holds both, so that a write to either is visible in the result.
\<close>

record PathStore =
  caller_byId :: "nat \<rightharpoonup> NormalizedField"
  updatedById :: "nat \<rightharpoonup> NormalizedField"

fun updateFieldPath ::
  "nat \<Rightarrow> NormalizedField \<Rightarrow> string list \<Rightarrow> PathStore \<Rightarrow> (error + PathStore) option"
and updateChildPaths ::
  "nat \<Rightarrow> NormalizedField option list \<Rightarrow> string list \<Rightarrow> PathStore
     \<Rightarrow> (error + PathStore) option" where
  "updateFieldPath 0 f ps s = None"
| "updateFieldPath (Suc fuel) f ps s =
     (let nm = name (source f);
          p = (if length ps = 0 then nm else join_dot ps @ ''.'' @ nm);
          s1 = s\<lparr> updatedById := (updatedById s)(id_field f \<mapsto> f\<lparr> path := p \<rparr>) \<rparr>
      in if hasChildFields f \<or> hasMultiFields f then
           (case childFields f of
              None \<Rightarrow> Some (Inl TypeError)
            | Some cs \<Rightarrow> updateChildPaths fuel (map (caller_byId s1) cs) (ps @ [nm]) s1)
         else Some (Inr s1))"
| "updateChildPaths fuel [] ps s = Some (Inr s)"
| "updateChildPaths fuel (None # cs) ps s = Some (Inl TypeError)"
| "updateChildPaths fuel (Some c # cs) ps s =
     (case updateFieldPath fuel c ps s of
        None \<Rightarrow> None
      | Some (Inl e) \<Rightarrow> Some (Inl e)
      | Some (Inr s') \<Rightarrow> updateChildPaths fuel cs ps s')"

text \<open>
  The result is the returned object \<^verbatim>\<open>{ path, byId }\<close>, as a pair, together with the
  caller's table as the call leaves it.
\<close>

definition updateFieldsPathAfterFieldNameChange ::
  "nat \<Rightarrow> NormalizedField \<Rightarrow> (nat \<rightharpoonup> NormalizedField)
     \<Rightarrow> (error + (string \<times> (nat \<rightharpoonup> NormalizedField)) \<times> (nat \<rightharpoonup> NormalizedField)) option" where
  "updateFieldsPathAfterFieldNameChange fuel field tbl =
     (let s0 = \<lparr> caller_byId = tbl, updatedById = tbl \<rparr> in
      case (case parentId field of
              None \<Rightarrow> Inr []
            | Some p \<Rightarrow>
                (case caller_byId s0 p of
                   None \<Rightarrow> Inl TypeError
                 | Some prow \<Rightarrow> Inr (split_dot (path prow)))) of
        Inl e \<Rightarrow> Some (Inl e)
      | Inr paths \<Rightarrow>
          (case updateFieldPath fuel field paths s0 of
             None \<Rightarrow> None
           | Some (Inl e) \<Rightarrow> Some (Inl e)
           | Some (Inr s) \<Rightarrow>
               (case updatedById s (id_field field) of
                  None \<Rightarrow> Some (Inl TypeError)
                | Some r \<Rightarrow> Some (Inr ((path r, updatedById s), caller_byId s)))))"

section \<open>Type changes\<close>

definition shouldDeleteChildFieldsAfterTypeChange :: "DataType \<Rightarrow> DataType \<Rightarrow> bool" where
  "shouldDeleteChildFieldsAfterTypeChange oldType newType =
     (if oldType = ''text'' \<and> newType \<noteq> ''keyword'' then True
      else if oldType = ''keyword'' \<and> newType \<noteq> ''text'' then True
      else if oldType = ''object'' \<and> newType \<noteq> ''nested'' then True
      else if oldType = ''nested'' \<and> newType \<noteq> ''object'' then True
      else False)"

section \<open>Validity of the state\<close>





section \<open>Parameter configuration\<close>

text \<open>
  \<^verbatim>\<open>PARAMETERS_DEFINITION\<close> comes from the constants module; \<^verbatim>\<open>getFieldConfig\<close> takes it
  as an argument here.  An entry may have a \<^verbatim>\<open>fieldConfig\<close> and a \<^verbatim>\<open>props\<close> table, whose
  entries may have a \<^verbatim>\<open>fieldConfig\<close> of their own.  A configuration is an object, given by
  its entries; \<^verbatim>\<open>{}\<close> is the empty list.

  The definition table and a \<^verbatim>\<open>props\<close> table are plain objects, given by their own entries.
  The code reads them with \<^verbatim>\<open>obj[key]\<close>, which finds an own entry and otherwise what a plain
  object inherits from \<^verbatim>\<open>Object.prototype\<close>.  Every inherited member is a function or, for
  \<^verbatim>\<open>__proto__\<close>, the prototype object itself: it is truthy, and its members \<^verbatim>\<open>props\<close> and
  \<^verbatim>\<open>fieldConfig\<close> are \<^verbatim>\<open>undefined\<close>.
\<close>

definition object_prototype_members :: "string list" where
  "object_prototype_members =
     [''constructor'', ''hasOwnProperty'', ''isPrototypeOf'', ''propertyIsEnumerable'',
      ''toLocaleString'', ''toString'', ''valueOf'', ''__proto__'',
      ''__defineGetter__'', ''__defineSetter__'', ''__lookupGetter__'', ''__lookupSetter__'']"

datatype 'a lookup = Own 'a | Inherited | Missing

definition get_member :: "(string \<rightharpoonup> 'a) \<Rightarrow> string \<Rightarrow> 'a lookup" where
  "get_member obj key =
     (case obj key of
        Some x \<Rightarrow> Own x
      | None \<Rightarrow> if key \<in> set object_prototype_members then Inherited else Missing)"

type_synonym FieldConfig = "(string \<times> string) list"

record PropDefinition =
  prop_fieldConfig :: "FieldConfig option"

record ParameterDefinition =
  fieldConfig :: "FieldConfig option"
  props :: "(string \<rightharpoonup> PropDefinition) option"

definition no_config_message :: "string \<Rightarrow> string \<Rightarrow> string" where
  "no_config_message prop param =
     ''No field config found for prop '' @ [CHR 0x22] @ prop @ [CHR 0x22]
       @ '' on param '' @ [CHR 0x22] @ param @ [CHR 0x22] @ '' ''"

text \<open>
  \<^verbatim>\<open>getFieldConfig(param, prop?)\<close>.  Reading a member of \<^verbatim>\<open>undefined\<close> is a \<^verbatim>\<open>TypeError\<close>; the
  guard \<^verbatim>\<open>!props || !props[prop]\<close> tests truthiness, so it passes for an own entry and for an
  inherited member alike.
\<close>

definition getFieldConfig ::
  "(string \<rightharpoonup> ParameterDefinition) \<Rightarrow> string \<Rightarrow> string option \<Rightarrow> error + FieldConfig" where
  "getFieldConfig PARAMETERS_DEFINITION param prop =
     (case prop of
        Some pr \<Rightarrow>
          (case get_member PARAMETERS_DEFINITION param of
             Missing \<Rightarrow> Inl TypeError
           | Inherited \<Rightarrow> Inl (Error (no_config_message pr param))
           | Own d \<Rightarrow>
               (case props d of
                  None \<Rightarrow> Inl (Error (no_config_message pr param))
                | Some table \<Rightarrow>
                    (case get_member table pr of
                       Missing \<Rightarrow> Inl (Error (no_config_message pr param))
                     | Inherited \<Rightarrow> Inr []
                     | Own pd \<Rightarrow>
                         Inr (case prop_fieldConfig pd of None \<Rightarrow> [] | Some c \<Rightarrow> c))))
      | None \<Rightarrow>
          (case get_member PARAMETERS_DEFINITION param of
             Missing \<Rightarrow> Inl TypeError
           | Inherited \<Rightarrow> Inr []
           | Own d \<Rightarrow> Inr (case fieldConfig d of None \<Rightarrow> [] | Some c \<Rightarrow> c)))"

section \<open>Notions used in the statements\<close>


text \<open>\<^verbatim>\<open>fieldConfig || {}\<close>\<close>

definition config_or_empty :: "FieldConfig option \<Rightarrow> FieldConfig" where
  "config_or_empty c = (case c of None \<Rightarrow> [] | Some cfg \<Rightarrow> cfg)"

text \<open>
  The pieces of one iteration of \<^verbatim>\<open>normalizeFields\<close> over an entry \<open>(propName, v)\<close>: its
  metadata, whether the code recurses into a container, the container it recurses into, the
  row it stores, and the two state changes around the recursive call.
\<close>

definition entry_meta :: "string \<Rightarrow> FieldValue \<Rightarrow> bool \<Rightarrow> FieldMeta" where
  "entry_meta propName v mf = getFieldMeta (with_name propName v) mf"

definition entry_has :: "string \<Rightarrow> FieldValue \<Rightarrow> bool \<Rightarrow> bool" where
  "entry_has propName v mf =
     (hasChildFields (entry_meta propName v mf) \<or> hasMultiFields (entry_meta propName v mf))"

definition entry_children :: "string \<Rightarrow> FieldValue \<Rightarrow> bool \<Rightarrow> Fields" where
  "entry_children propName v mf =
     the (member (with_name propName v) (childFieldsName (entry_meta propName v mf)))"

definition entry_row ::
  "nat \<Rightarrow> nat option \<Rightarrow> nat \<Rightarrow> bool \<Rightarrow> string list \<Rightarrow> string \<Rightarrow> FieldValue
     \<Rightarrow> nat list option \<Rightarrow> NormalizedField" where
  "entry_row i pid d mf paths propName v cs =
     normalizedField_of i pid d mf (path_of paths propName) (rest_of (with_name propName v))
       ((entry_meta propName v mf)\<lparr> childFields := cs \<rparr>)"

definition store_row :: "nat \<Rightarrow> NormalizedField \<Rightarrow> NormalizeState \<Rightarrow> NormalizeState" where
  "store_row i r st = st\<lparr> to_byId := (to_byId st)(i \<mapsto> r) \<rparr>"

definition enter :: "nat \<Rightarrow> NormalizeState \<Rightarrow> NormalizeState" where
  "enter d st = st\<lparr> uuid_next := Suc (uuid_next st), max_depth := max (max_depth st) (Suc d) \<rparr>"

text \<open>
  The chain of identifiers that \<^verbatim>\<open>parentId\<close> links from a row without a parent down to
  the row \<open>k\<close>, root first.  A row has a chain only if following \<^verbatim>\<open>parentId\<close> from it ends,
  so a table with a cycle or a dangling \<^verbatim>\<open>parentId\<close> has rows without one.
\<close>

inductive parent_chain :: "(nat \<rightharpoonup> NormalizedField) \<Rightarrow> nat \<Rightarrow> nat list \<Rightarrow> bool"
  for tbl :: "nat \<rightharpoonup> NormalizedField" where
  root: "tbl k = Some r \<Longrightarrow> parentId r = None \<Longrightarrow> parent_chain tbl k [k]"
| child: "tbl k = Some r \<Longrightarrow> parentId r = Some p \<Longrightarrow> parent_chain tbl p ch
    \<Longrightarrow> parent_chain tbl k (ch @ [k])"

code_pred parent_chain .

text \<open>The name a row of the table carries now.\<close>

definition live_name :: "(nat \<rightharpoonup> NormalizedField) \<Rightarrow> nat \<Rightarrow> string" where
  "live_name tbl k = (case tbl k of None \<Rightarrow> [] | Some r \<Rightarrow> name (source r))"

text \<open>
  A well-formed table.  Its rows are finitely many; each row is stored under its own
  identifier; a row has \<^verbatim>\<open>childFields\<close> exactly when one of its two "has" flags is set, and
  every identifier in it is the key of a row that names this row as its parent; a row
  without a parent has its name as path, and a row with a parent is listed in the parent's
  \<^verbatim>\<open>childFields\<close>, is one level deeper and has the parent's path, a dot and its own name as
  path.
\<close>

definition has_kids :: "NormalizedField \<Rightarrow> bool" where
  "has_kids r = (hasChildFields r \<or> hasMultiFields r)"

definition kids_ok :: "(nat \<rightharpoonup> NormalizedField) \<Rightarrow> nat \<Rightarrow> NormalizedField \<Rightarrow> bool" where
  "kids_ok tbl k r =
     (case childFields r of
        None \<Rightarrow> \<not> has_kids r
      | Some cs \<Rightarrow> has_kids r \<and> (\<forall>c \<in> set cs. \<exists>cr. tbl c = Some cr \<and> parentId cr = Some k))"

definition parent_ok :: "(nat \<rightharpoonup> NormalizedField) \<Rightarrow> nat \<Rightarrow> NormalizedField \<Rightarrow> bool" where
  "parent_ok tbl k r =
     (case parentId r of
        None \<Rightarrow> path r = name (source r)
      | Some p \<Rightarrow>
          (\<exists>pr. tbl p = Some pr \<and> nestedDepth r = nestedDepth pr + 1
             \<and> path r = path pr @ ''.'' @ name (source r)
             \<and> (\<exists>cs. childFields pr = Some cs \<and> k \<in> set cs)))"

definition row_ok :: "(nat \<rightharpoonup> NormalizedField) \<Rightarrow> nat \<Rightarrow> NormalizedField \<Rightarrow> bool" where
  "row_ok tbl k r = (id_field r = k \<and> parent_ok tbl k r \<and> kids_ok tbl k r)"

definition well_formed_table :: "(nat \<rightharpoonup> NormalizedField) \<Rightarrow> bool" where
  "well_formed_table tbl = (finite (dom tbl) \<and> (\<forall>k r. tbl k = Some r \<longrightarrow> row_ok tbl k r))"

text \<open>
  The links of a row, with or without its path.  \<open>link_ok True\<close> is \<open>row_ok\<close>; \<open>link_ok False\<close>
  leaves the two conditions on the path out and keeps the identifier, the parent, the depth
  and the children.  A value that carries a member \<^verbatim>\<open>name\<close> gives a row whose path is built
  from the key and whose \<^verbatim>\<open>source.name\<close> is that member, so only a tree without such values
  (\<open>plain\<close>) gives rows whose path is built from their names.
\<close>

definition link_ok ::
  "bool \<Rightarrow> (nat \<rightharpoonup> NormalizedField) \<Rightarrow> nat \<Rightarrow> NormalizedField \<Rightarrow> bool" where
  "link_ok N tbl k r =
     (id_field r = k \<and> kids_ok tbl k r
      \<and> (case parentId r of
            None \<Rightarrow> N \<longrightarrow> path r = name (source r)
          | Some p \<Rightarrow>
              (\<exists>pr. tbl p = Some pr \<and> nestedDepth r = nestedDepth pr + 1
                 \<and> (N \<longrightarrow> path r = path pr @ ''.'' @ name (source r))
                 \<and> (\<exists>cs. childFields pr = Some cs \<and> k \<in> set cs))))"

fun plain :: "Fields \<Rightarrow> bool" where
  "plain [] = True"
| "plain ((propName, FieldValue t ps pr fl un) # es) =
     (''name'' \<notin> fst ` set ps
      \<and> (case pr of None \<Rightarrow> True | Some c \<Rightarrow> plain c)
      \<and> (case fl of None \<Rightarrow> True | Some c \<Rightarrow> plain c)
      \<and> plain es)"

text \<open>
  What a call of \<^verbatim>\<open>normalizeFields\<close> leaves in the table: the rows of its own level carry
  the arguments of the call (their parent is stored only after the call returns), the
  rows below are complete.
\<close>

definition level_ok ::
  "bool \<Rightarrow> (nat \<rightharpoonup> NormalizedField) \<Rightarrow> string list \<Rightarrow> nat \<Rightarrow> bool \<Rightarrow> nat option \<Rightarrow> nat
     \<Rightarrow> bool" where
  "level_ok N tbl paths d mf pid k =
     (\<exists>r. tbl k = Some r \<and> id_field r = k \<and> parentId r = pid \<and> nestedDepth r = d
        \<and> isMultiField r = mf \<and> (N \<longrightarrow> path r = path_of paths (name (source r)))
        \<and> kids_ok tbl k r)"

definition inner_ok :: "bool \<Rightarrow> (nat \<rightharpoonup> NormalizedField) \<Rightarrow> nat \<Rightarrow> bool" where
  "inner_ok N tbl k = (\<exists>r. tbl k = Some r \<and> link_ok N tbl k r \<and> parentId r \<noteq> None)"

text \<open>
  A definition table used as an example: the parameter \<^verbatim>\<open>boost\<close> with a configuration of its
  own and a \<^verbatim>\<open>props\<close> table with the two entries \<^verbatim>\<open>min\<close> and \<^verbatim>\<open>max\<close>.
\<close>

definition example_parameters :: "string \<rightharpoonup> ParameterDefinition" where
  "example_parameters =
     [''boost'' \<mapsto>
        \<lparr> fieldConfig = Some [(''defaultValue'', ''1.0'')],
          props = Some [''min'' \<mapsto> \<lparr> prop_fieldConfig = Some [(''defaultValue'', ''1'')] \<rparr>,
                        ''max'' \<mapsto> \<lparr> prop_fieldConfig = None \<rparr>] \<rparr>]"

text \<open>The state in which \<^verbatim>\<open>normalize\<close> starts, and the trees used as examples.\<close>

definition start_state :: NormalizeState where
  "start_state = \<lparr> uuid_next = 0, to_byId = Map.empty, max_depth = 0 \<rparr>"

text \<open>
  The tree of the comment above \<^verbatim>\<open>normalize\<close>, with a multi-field under the text field; an
  object field with an empty \<^verbatim>\<open>properties\<close> container; an object field with a \<^verbatim>\<open>fields\<close>
  container, which is not the container of its type.
\<close>

definition example_tree :: Fields where
  "example_tree =
     [(''myObject'', FieldValue ''object'' []
        (Some [(''name'', FieldValue ''text'' [] None
                  (Some [(''raw'', FieldValue ''keyword'' [] None None None)]) None)])
        None None)]"


text \<open>
  Two more trees: one with a field called \<^verbatim>\<open>__proto__\<close>, as \<^verbatim>\<open>JSON.parse\<close> produces it, and
  one whose value carries a member \<^verbatim>\<open>name\<close>.
\<close>

definition proto_tree :: Fields where
  "proto_tree =
     [(''__proto__'', FieldValue ''text'' [] None None None),
      (''a'', FieldValue ''long'' [] None None None)]"

definition named_value_tree :: Fields where
  "named_value_tree = [(''foo'', FieldValue ''text'' [(''name'', ''bar'')] None None None)]"

text \<open>
  A row that has \<^verbatim>\<open>childFields\<close> and no \<^verbatim>\<open>childFieldsName\<close>.  \<^verbatim>\<open>normalize\<close> produces no such
  row; the editor's table may hold one.
\<close>

definition untyped_row :: NormalizedField where
  "untyped_row =
    \<lparr> childFieldsName = None, canHaveChildFields = False,
      hasChildFields = False, canHaveMultiFields = False, hasMultiFields = False,
      isExpanded = False, childFields = Some [], id_field = 0, parentId = None,
      nestedDepth = 0, isMultiField = False, path = ''location'',
      source = \<lparr> name = ''location'', ftype = ''geo_point'', params = [],
                 properties = None, fields_member = None, undefined_member = None \<rparr> \<rparr>"

definition stray_container_tree :: Fields where
  "stray_container_tree =
     [(''myObject'', FieldValue ''object'' [] None
        (Some [(''raw'', FieldValue ''keyword'' [] None None None)]) None)]"



text \<open>
  The subtree of a field in a table: the identifier of the field itself and those of the
  rows that the walks reach from it, through the \<^verbatim>\<open>childFields\<close> of rows whose "has" flags
  let them descend.
\<close>

inductive subtree :: "(nat \<rightharpoonup> NormalizedField) \<Rightarrow> NormalizedField \<Rightarrow> nat \<Rightarrow> bool"
  for tbl :: "nat \<rightharpoonup> NormalizedField" where
  self: "subtree tbl f (id_field f)"
| kid: "has_kids f \<Longrightarrow> childFields f = Some cs \<Longrightarrow> c \<in> set cs \<Longrightarrow> tbl c = Some cr
    \<Longrightarrow> subtree tbl cr j \<Longrightarrow> subtree tbl f j"

code_pred subtree .


text \<open>
  The row of the field \<^verbatim>\<open>name\<close> of the example tree after the editor has changed its name
  to \<^verbatim>\<open>title\<close>, and the table that the rename returns for it.
\<close>

definition renamed_name_row :: NormalizedField where
  "renamed_name_row =
    \<lparr> childFieldsName = Some Fields_name, canHaveChildFields = False,
      hasChildFields = False, canHaveMultiFields = True, hasMultiFields = True,
      isExpanded = False, childFields = Some [2], id_field = 1, parentId = Some 0,
      nestedDepth = 1, isMultiField = False, path = ''myObject.name'',
      source = \<lparr> name = ''title'', ftype = ''text'', params = [], properties = None,
                 fields_member = None, undefined_member = None \<rparr> \<rparr>"

definition example_renamed :: "nat \<rightharpoonup> NormalizedField" where
  "example_renamed =
     (byId (normalize example_tree))
       (1 \<mapsto> renamed_name_row\<lparr> path := ''myObject.title'' \<rparr>,
        2 \<mapsto> \<lparr> childFieldsName = Some Fields_name, canHaveChildFields = False,
              hasChildFields = False, canHaveMultiFields = False, hasMultiFields = False,
              isExpanded = False, childFields = None, id_field = 2, parentId = Some 1,
              nestedDepth = 2, isMultiField = True, path = ''myObject.title.raw'',
              source = \<lparr> name = ''raw'', ftype = ''keyword'', params = [],
                         properties = None, fields_member = None, undefined_member = None \<rparr> \<rparr>)"





section \<open>Properties of the metadata and of type changes\<close>

text \<open>
  C5.  Evaluated as a multi-field member, a field gets all four flags false, whatever its
  type and whatever containers it carries.  A field whose type is none of \<^verbatim>\<open>text\<close>,
  \<^verbatim>\<open>keyword\<close>, \<^verbatim>\<open>object\<close>, \<^verbatim>\<open>nested\<close> has no \<^verbatim>\<open>childFieldsName\<close> and both capability flags
  false, whether it is a multi-field member or not.
\<close>

theorem getFieldMeta_multi_field_and_unknown_type:
  "canHaveChildFields (getFieldMeta field True) = False
   \<and> hasChildFields (getFieldMeta field True) = False
   \<and> canHaveMultiFields (getFieldMeta field True) = False
   \<and> hasMultiFields (getFieldMeta field True) = False
   \<and> (ftype field \<notin> {''text'', ''keyword'', ''object'', ''nested''} \<longrightarrow>
        childFieldsName (getFieldMeta field m) = None
        \<and> canHaveChildFields (getFieldMeta field m) = False
        \<and> canHaveMultiFields (getFieldMeta field m) = False)"
  by (simp add: getFieldMeta_def getChildFieldsName_def Let_def)

theorem getFieldMeta_multi_field_and_unknown_type_witness:
  "ftype \<lparr> name = ''n'', ftype = ''long'', params = [],
           properties = None, fields_member = Some [(''raw'', FieldValue ''keyword'' [] None None None)],
           undefined_member = None \<rparr>
     \<notin> {''text'', ''keyword'', ''object'', ''nested''}
   \<and> childFieldsName (getFieldMeta \<lparr> name = ''n'', ftype = ''long'', params = [],
           properties = None,
           fields_member = Some [(''raw'', FieldValue ''keyword'' [] None None None)],
           undefined_member = None \<rparr> False) = None
   \<and> canHaveMultiFields (getFieldMeta \<lparr> name = ''n'', ftype = ''long'', params = [],
           properties = None,
           fields_member = Some [(''raw'', FieldValue ''keyword'' [] None None None)],
           undefined_member = None \<rparr> False) = False"
  using getFieldMeta_multi_field_and_unknown_type
    [of "\<lparr> name = ''n'', ftype = ''long'', params = [], properties = None,
           fields_member = Some [(''raw'', FieldValue ''keyword'' [] None None None)],
           undefined_member = None \<rparr>" False]
  by simp

text \<open>
  C9.  Changing \<^verbatim>\<open>text\<close> to \<^verbatim>\<open>object\<close> asks for the child fields to be deleted; changing
  \<^verbatim>\<open>text\<close> to \<^verbatim>\<open>keyword\<close> does not.
\<close>

theorem shouldDeleteChildFieldsAfterTypeChange_examples:
  "shouldDeleteChildFieldsAfterTypeChange ''text'' ''object'' = True
   \<and> shouldDeleteChildFieldsAfterTypeChange ''text'' ''keyword'' = False"
  by (simp add: shouldDeleteChildFieldsAfterTypeChange_def)

section \<open>Properties of the validity fold\<close>




section \<open>Properties of the parameter configuration\<close>

text \<open>
  For a parameter of the definition table and a prop whose name is not one that a plain
  object inherits, \<^verbatim>\<open>getFieldConfig\<close> throws exactly when a prop is given and the parameter
  has no \<^verbatim>\<open>props\<close> table or the table has no entry for the prop, and what it throws is the
  \<^verbatim>\<open>Error\<close> with the message naming both.  With no prop it returns the parameter's
  \<^verbatim>\<open>fieldConfig\<close>, with a prop that exists the prop's, and \<^verbatim>\<open>{}\<close> where none is defined.
\<close>

lemma getFieldConfig_own_names:
  assumes "PARAMETERS_DEFINITION param = Some d"
    and "\<forall>pr. prop = Some pr \<longrightarrow> pr \<notin> set object_prototype_members"
  shows "((\<exists>e. getFieldConfig PARAMETERS_DEFINITION param prop = Inl e) \<longleftrightarrow>
            (\<exists>pr. prop = Some pr
               \<and> (props d = None \<or> (\<exists>table. props d = Some table \<and> table pr = None))))
    \<and> (\<forall>e pr. getFieldConfig PARAMETERS_DEFINITION param prop = Inl e \<and> prop = Some pr
          \<longrightarrow> e = Error (no_config_message pr param))
    \<and> (prop = None \<longrightarrow>
          getFieldConfig PARAMETERS_DEFINITION param prop = Inr (config_or_empty (fieldConfig d)))
    \<and> (\<forall>pr table pd. prop = Some pr \<and> props d = Some table \<and> table pr = Some pd \<longrightarrow>
          getFieldConfig PARAMETERS_DEFINITION param prop
            = Inr (config_or_empty (prop_fieldConfig pd)))"
  using assms
  by (auto simp: getFieldConfig_def get_member_def config_or_empty_def split: option.splits)

text \<open>
  For a prop whose name a plain object inherits and for which the \<^verbatim>\<open>props\<close> table has no
  entry, the guard passes and the call returns \<^verbatim>\<open>{}\<close>, whatever the table.
\<close>

lemma getFieldConfig_inherited_names:
  assumes "PARAMETERS_DEFINITION param = Some d" and "props d = Some table"
    and "table pr = None" and "pr \<in> set object_prototype_members"
  shows "getFieldConfig PARAMETERS_DEFINITION param (Some pr) = Inr []"
  using assms by (simp add: getFieldConfig_def get_member_def)

lemma getFieldConfig_example:
  "getFieldConfig example_parameters ''boost'' None = Inr [(''defaultValue'', ''1.0'')]"
  "getFieldConfig example_parameters ''boost'' (Some ''min'') = Inr [(''defaultValue'', ''1'')]"
  "getFieldConfig example_parameters ''boost'' (Some ''max'') = Inr []"
  "getFieldConfig example_parameters ''boost'' (Some ''step'')
     = Inl (Error (no_config_message ''step'' ''boost''))"
  by (simp_all add: getFieldConfig_def get_member_def example_parameters_def
      object_prototype_members_def)

text \<open>
  C8.  The statement asks for the error whenever the \<^verbatim>\<open>props\<close> table has no entry for the
  prop.  The table of \<^verbatim>\<open>boost\<close> in the example has the entries \<^verbatim>\<open>min\<close> and \<^verbatim>\<open>max\<close> and none
  for \<^verbatim>\<open>constructor\<close>; the guard \<^verbatim>\<open>!props[prop]\<close> finds the member that every plain object
  inherits under that name, and the call returns \<^verbatim>\<open>{}\<close> instead of throwing.
\<close>

theorem getFieldConfig_inherited_prop:
  "(\<exists>d table. example_parameters ''boost'' = Some d \<and> props d = Some table
       \<and> table ''constructor'' = None)
   \<and> getFieldConfig example_parameters ''boost'' (Some ''constructor'') = Inr []"
  by (simp add: getFieldConfig_def get_member_def example_parameters_def
      object_prototype_members_def)

section \<open>The recursion of \<^verbatim>\<open>normalizeFields\<close>\<close>

text \<open>
  Inside the branch that recurses, one of the two capability flags holds, so the depth
  passed down is always \<open>nestedDepth + 1\<close>.  The two unfolding lemmas and the induction
  rule below present the recursion by the cases of an entry: a leaf, or a node with a
  container the code walks.
\<close>

lemma has_imp_can:
  "hasChildFields (getFieldMeta f mf) \<or> hasMultiFields (getFieldMeta f mf) \<Longrightarrow>
   canHaveChildFields (getFieldMeta f mf) \<or> canHaveMultiFields (getFieldMeta f mf)"
  by (auto simp: getFieldMeta_def Let_def split: if_splits)

lemma meta_no_children: "(getFieldMeta f mf)\<lparr> childFields := None \<rparr> = getFieldMeta f mf"
  by (simp add: getFieldMeta_def Let_def)

lemma normalizeFields_leaf:
  assumes "\<not> entry_has propName v mf"
  shows "normalizeFields ((propName, v) # es) st paths d mf pid =
     (uuid_next st #
        fst (normalizeFields es
          (store_row (uuid_next st) (entry_row (uuid_next st) pid d mf paths propName v None)
             (st\<lparr> uuid_next := Suc (uuid_next st) \<rparr>)) paths d mf pid),
      snd (normalizeFields es
          (store_row (uuid_next st) (entry_row (uuid_next st) pid d mf paths propName v None)
             (st\<lparr> uuid_next := Suc (uuid_next st) \<rparr>)) paths d mf pid))"
  using assms
  by (simp add: entry_has_def entry_meta_def entry_row_def store_row_def Let_def split_beta
      meta_no_children)

lemma normalizeFields_node:
  assumes "entry_has propName v mf"
  shows "normalizeFields ((propName, v) # es) st paths d mf pid =
     (let i = uuid_next st;
          sub = normalizeFields (entry_children propName v mf) (enter d st) (paths @ [propName])
                  (Suc d) (canHaveMultiFields (entry_meta propName v mf)) (Some i);
          rst = normalizeFields es
                  (store_row i (entry_row i pid d mf paths propName v (Some (fst sub))) (snd sub))
                  paths d mf pid
      in (i # fst rst, snd rst))"
  using assms has_imp_can[of "with_name propName v" mf]
  by (simp add: entry_has_def entry_meta_def entry_row_def store_row_def Let_def split_beta
      entry_children_def enter_def)

lemma normalizeFields_cases_induct [case_names Nil Leaf Node]:
  assumes "\<And>st paths d mf pid. P [] st paths d mf pid"
    and "\<And>propName v es st paths d mf pid.
      \<not> entry_has propName v mf \<Longrightarrow>
      P es (store_row (uuid_next st) (entry_row (uuid_next st) pid d mf paths propName v None)
             (st\<lparr> uuid_next := Suc (uuid_next st) \<rparr>)) paths d mf pid \<Longrightarrow>
      P ((propName, v) # es) st paths d mf pid"
    and "\<And>propName v es st paths d mf pid.
      entry_has propName v mf \<Longrightarrow>
      P (entry_children propName v mf) (enter d st) (paths @ [propName]) (Suc d)
        (canHaveMultiFields (entry_meta propName v mf)) (Some (uuid_next st)) \<Longrightarrow>
      P es
        (store_row (uuid_next st)
           (entry_row (uuid_next st) pid d mf paths propName v
              (Some (fst (normalizeFields (entry_children propName v mf) (enter d st)
                 (paths @ [propName]) (Suc d) (canHaveMultiFields (entry_meta propName v mf))
                 (Some (uuid_next st))))))
           (snd (normalizeFields (entry_children propName v mf) (enter d st)
                 (paths @ [propName]) (Suc d) (canHaveMultiFields (entry_meta propName v mf))
                 (Some (uuid_next st)))))
        paths d mf pid \<Longrightarrow>
      P ((propName, v) # es) st paths d mf pid"
  shows "P es st paths d mf pid"
proof (induction es st paths d mf pid rule: normalizeFields.induct)
  case (1 st paths d mf pid)
  show ?case by (rule assms(1))
next
  case (2 propName v es st paths d mf pid)
  note ih_rest = 2(2)[OF refl refl refl refl refl _ refl refl]
  show ?case
  proof (cases "entry_has propName v mf")
    case False
    have "P es (store_row (uuid_next st) (entry_row (uuid_next st) pid d mf paths propName v None)
             (st\<lparr> uuid_next := Suc (uuid_next st) \<rparr>)) paths d mf pid"
      using False
        ih_rest[of "getFieldMeta (with_name propName v) mf" "st\<lparr> uuid_next := Suc (uuid_next st) \<rparr>"]
      by (simp add: entry_has_def entry_meta_def entry_row_def store_row_def meta_no_children)
    with False show ?thesis by (rule assms(2))
  next
    case True
    have can: "canHaveChildFields (getFieldMeta (with_name propName v) mf)
      \<or> canHaveMultiFields (getFieldMeta (with_name propName v) mf)"
      using True has_imp_can[of "with_name propName v" mf] by (simp add: entry_has_def entry_meta_def)
    have sub: "P (entry_children propName v mf) (enter d st) (paths @ [propName]) (Suc d)
        (canHaveMultiFields (entry_meta propName v mf)) (Some (uuid_next st))"
      using True can 2(1)[OF refl refl refl refl _ refl refl]
      by (simp add: entry_has_def entry_meta_def entry_children_def enter_def)
    have "P es
        (store_row (uuid_next st)
           (entry_row (uuid_next st) pid d mf paths propName v
              (Some (fst (normalizeFields (entry_children propName v mf) (enter d st)
                 (paths @ [propName]) (Suc d) (canHaveMultiFields (entry_meta propName v mf))
                 (Some (uuid_next st))))))
           (snd (normalizeFields (entry_children propName v mf) (enter d st)
                 (paths @ [propName]) (Suc d) (canHaveMultiFields (entry_meta propName v mf))
                 (Some (uuid_next st)))))
        paths d mf pid"
      using True can
        ih_rest[of "(getFieldMeta (with_name propName v) mf)\<lparr> childFields :=
           Some (fst (normalizeFields (entry_children propName v mf) (enter d st)
                 (paths @ [propName]) (Suc d) (canHaveMultiFields (entry_meta propName v mf))
                 (Some (uuid_next st)))) \<rparr>"
           "snd (normalizeFields (entry_children propName v mf) (enter d st)
                 (paths @ [propName]) (Suc d) (canHaveMultiFields (entry_meta propName v mf))
                 (Some (uuid_next st)))"]
      by (simp add: entry_has_def entry_meta_def entry_row_def store_row_def
            entry_children_def enter_def Let_def split_beta)
    with True sub show ?thesis by (rule assms(3))
  qed
qed

declare normalizeFields.simps(2) [simp del]

section \<open>The table that \<^verbatim>\<open>normalizeFields\<close> builds\<close>

lemma kids_ok_mono: "tbl \<subseteq>\<^sub>m tbl' \<Longrightarrow> kids_ok tbl k r \<Longrightarrow> kids_ok tbl' k r"
  unfolding kids_ok_def map_le_def
  by (auto split: option.splits simp: dom_def)

lemma parent_ok_mono: "tbl \<subseteq>\<^sub>m tbl' \<Longrightarrow> parent_ok tbl k r \<Longrightarrow> parent_ok tbl' k r"
  unfolding parent_ok_def map_le_def
  by (auto split: option.splits simp: dom_def)


lemma link_ok_mono: "tbl \<subseteq>\<^sub>m tbl' \<Longrightarrow> link_ok N tbl k r \<Longrightarrow> link_ok N tbl' k r"
  unfolding link_ok_def map_le_def
  by (auto split: option.splits simp: dom_def kids_ok_def)

lemma level_ok_mono:
  "tbl \<subseteq>\<^sub>m tbl' \<Longrightarrow> level_ok N tbl paths d mf pid k \<Longrightarrow> level_ok N tbl' paths d mf pid k"
  unfolding level_ok_def
  by (metis kids_ok_mono map_le_def domI)

lemma inner_ok_mono: "tbl \<subseteq>\<^sub>m tbl' \<Longrightarrow> inner_ok N tbl k \<Longrightarrow> inner_ok N tbl' k"
  unfolding inner_ok_def
  by (metis link_ok_mono map_le_def domI)

lemma norm_frame:
  assumes "dom (to_byId st) \<subseteq> {..<uuid_next st}"
  shows "uuid_next st \<le> uuid_next (snd (normalizeFields es st paths d mf pid))
    \<and> dom (to_byId (snd (normalizeFields es st paths d mf pid)))
        = dom (to_byId st) \<union> {uuid_next st ..< uuid_next (snd (normalizeFields es st paths d mf pid))}
    \<and> to_byId st \<subseteq>\<^sub>m to_byId (snd (normalizeFields es st paths d mf pid))
    \<and> set (fst (normalizeFields es st paths d mf pid))
        \<subseteq> {uuid_next st ..< uuid_next (snd (normalizeFields es st paths d mf pid))}"
  using assms
proof (induction es st paths d mf pid rule: normalizeFields_cases_induct)
  case (Nil st paths d mf pid)
  then show ?case by simp
next
  case (Leaf propName v es st paths d mf pid)
  let ?i = "uuid_next st"
  let ?st3 = "store_row ?i (entry_row ?i pid d mf paths propName v None)
             (st\<lparr> uuid_next := Suc ?i \<rparr>)"
  have pre: "dom (to_byId ?st3) \<subseteq> {..<uuid_next ?st3}"
    using Leaf.prems by (auto simp: store_row_def)
  note ih = Leaf.IH[OF pre]
  have le: "to_byId st \<subseteq>\<^sub>m to_byId ?st3"
    using Leaf.prems by (auto simp: store_row_def map_le_def)
  have c3: "uuid_next ?st3 = Suc ?i"
    and d3: "dom (to_byId ?st3) = insert ?i (dom (to_byId st))"
    by (simp_all add: store_row_def)
  show ?case
    unfolding normalizeFields_leaf[OF Leaf.hyps] fst_conv snd_conv
  proof (intro conjI)
    show "?i \<le> uuid_next (snd (normalizeFields es ?st3 paths d mf pid))"
      using ih c3 by linarith
    show "dom (to_byId (snd (normalizeFields es ?st3 paths d mf pid))) =
      dom (to_byId st) \<union> {?i ..< uuid_next (snd (normalizeFields es ?st3 paths d mf pid))}"
      using ih c3 d3 by auto
    show "to_byId st \<subseteq>\<^sub>m to_byId (snd (normalizeFields es ?st3 paths d mf pid))"
      using ih le map_le_trans by blast
    show "set (?i # fst (normalizeFields es ?st3 paths d mf pid))
      \<subseteq> {?i ..< uuid_next (snd (normalizeFields es ?st3 paths d mf pid))}"
      using ih c3 by auto
  qed
next
  case (Node propName v es st paths d mf pid)
  let ?i = "uuid_next st"
  let ?sub = "normalizeFields (entry_children propName v mf) (enter d st) (paths @ [propName])
                (Suc d) (canHaveMultiFields (entry_meta propName v mf)) (Some ?i)"
  let ?st3 = "store_row ?i (entry_row ?i pid d mf paths propName v (Some (fst ?sub))) (snd ?sub)"
  have pre1: "dom (to_byId (enter d st)) \<subseteq> {..<uuid_next (enter d st)}"
    using Node.prems by (auto simp: enter_def)
  note ih1 = Node.IH(1)[OF pre1]
  have n1: "Suc ?i \<le> uuid_next (snd ?sub)"
    and dom1: "dom (to_byId (snd ?sub)) = dom (to_byId st) \<union> {Suc ?i ..< uuid_next (snd ?sub)}"
    and le1: "to_byId st \<subseteq>\<^sub>m to_byId (snd ?sub)"
    and ids1: "set (fst ?sub) \<subseteq> {Suc ?i ..< uuid_next (snd ?sub)}"
    using ih1 by (simp_all add: enter_def)
  have fresh: "?i \<notin> dom (to_byId (snd ?sub))"
    using dom1 Node.prems by auto
  have pre3: "dom (to_byId ?st3) \<subseteq> {..<uuid_next ?st3}"
    using dom1 n1 Node.prems by (auto simp: store_row_def)
  note ih3 = Node.IH(2)[OF pre3]
  have "?i \<notin> dom (to_byId st)" using Node.prems by auto
  then have le3: "to_byId st \<subseteq>\<^sub>m to_byId ?st3"
    using le1 by (auto simp: store_row_def map_le_def)
  have c3: "uuid_next ?st3 = uuid_next (snd ?sub)"
    and d3: "dom (to_byId ?st3) = insert ?i (dom (to_byId (snd ?sub)))"
    by (simp_all add: store_row_def)
  show ?case
    unfolding normalizeFields_node[OF Node.hyps] Let_def fst_conv snd_conv
  proof (intro conjI)
    show "?i \<le> uuid_next (snd (normalizeFields es ?st3 paths d mf pid))"
      using ih3 n1 c3 by linarith
    show "dom (to_byId (snd (normalizeFields es ?st3 paths d mf pid))) =
      dom (to_byId st) \<union> {?i ..< uuid_next (snd (normalizeFields es ?st3 paths d mf pid))}"
      using ih3 n1 c3 d3 dom1 by auto
    show "to_byId st \<subseteq>\<^sub>m to_byId (snd (normalizeFields es ?st3 paths d mf pid))"
      using ih3 le3 map_le_trans by blast
    show "set (?i # fst (normalizeFields es ?st3 paths d mf pid))
      \<subseteq> {?i ..< uuid_next (snd (normalizeFields es ?st3 paths d mf pid))}"
      using ih3 n1 c3 by auto
  qed
qed


lemma join_dot_Cons: "join_dot (x # xs) = (if xs = [] then x else x @ ''.'' @ join_dot xs)"
  by (cases xs) simp_all

lemma join_dot_snoc_if:
  "join_dot (ps @ [x]) = (if ps = [] then x else join_dot ps @ ''.'' @ x)"
  by (induction ps) (simp_all add: join_dot_Cons)

lemma join_dot_snoc: "join_dot (ps @ [x]) = path_of ps x"
  by (simp add: join_dot_snoc_if path_of_def)

lemma with_name_plain:
  "''name'' \<notin> fst ` set (v_params v) \<Longrightarrow> name (with_name propName v) = propName"
  by (simp add: with_name_def map_of_eq_None_iff[THEN iffD2])

lemma plain_head: "plain ((propName, v) # es) \<Longrightarrow> name (with_name propName v) = propName"
  by (cases v) (simp add: with_name_plain)

lemma plain_tail: "plain ((propName, v) # es) \<Longrightarrow> plain es"
  by (cases v) simp

lemma plain_node:
  "plain ((propName, v) # es) \<Longrightarrow> entry_has propName v mf \<Longrightarrow>
   plain (entry_children propName v mf)"
  by (cases v)
    (auto simp: entry_has_def entry_meta_def getFieldMeta_def getChildFieldsName_def Let_def
      nonEmptyMember_def member_def with_name_def entry_children_def
      split: option.splits if_splits)

lemma entry_row_sel [simp]:
  "id_field (entry_row i pid d mf paths propName v cs) = i"
  "parentId (entry_row i pid d mf paths propName v cs) = pid"
  "nestedDepth (entry_row i pid d mf paths propName v cs) = d"
  "isMultiField (entry_row i pid d mf paths propName v cs) = mf"
  "path (entry_row i pid d mf paths propName v cs) = path_of paths propName"
  "name (source (entry_row i pid d mf paths propName v cs)) = name (with_name propName v)"
  "childFields (entry_row i pid d mf paths propName v cs) = cs"
  "has_kids (entry_row i pid d mf paths propName v cs) = entry_has propName v mf"
  "properties (source (entry_row i pid d mf paths propName v cs)) = None"
  "fields_member (source (entry_row i pid d mf paths propName v cs)) = None"
  by (simp_all add: entry_row_def normalizedField_of_def rest_of_def with_name_def has_kids_def
      entry_has_def)

lemma norm_rows:
  assumes "dom (to_byId st) \<subseteq> {..<uuid_next st}" and "N \<longrightarrow> plain es"
  shows "(\<forall>k \<in> set (fst (normalizeFields es st paths d mf pid)).
            level_ok N (to_byId (snd (normalizeFields es st paths d mf pid))) paths d mf pid k)
    \<and> (\<forall>k. uuid_next st \<le> k \<and> k < uuid_next (snd (normalizeFields es st paths d mf pid))
            \<and> k \<notin> set (fst (normalizeFields es st paths d mf pid))
          \<longrightarrow> inner_ok N (to_byId (snd (normalizeFields es st paths d mf pid))) k)"
  using assms
proof (induction es st paths d mf pid rule: normalizeFields_cases_induct)
  case (Nil st paths d mf pid)
  then show ?case by auto
next
  case (Leaf propName v es st paths d mf pid)
  let ?i = "uuid_next st"
  let ?row = "entry_row ?i pid d mf paths propName v None"
  let ?st3 = "store_row ?i ?row (st\<lparr> uuid_next := Suc ?i \<rparr>)"
  let ?R = "normalizeFields es ?st3 paths d mf pid"
  have pre: "dom (to_byId ?st3) \<subseteq> {..<uuid_next ?st3}"
    using Leaf.prems(1) by (auto simp: store_row_def)
  have nm: "N \<longrightarrow> name (with_name propName v) = propName"
    using Leaf.prems(2) plain_head[of propName v es] by blast
  have pl: "N \<longrightarrow> plain es"
    using Leaf.prems(2) plain_tail[of propName v es] by blast
  note ih = Leaf.IH[OF pre pl]
  note fr = norm_frame[OF pre, of es paths d mf pid]
  have lev: "level_ok N (to_byId ?st3) paths d mf pid ?i"
    using Leaf.hyps nm by (simp add: level_ok_def store_row_def kids_ok_def)
  have lev': "level_ok N (to_byId (snd ?R)) paths d mf pid ?i"
    using lev fr level_ok_mono[of "to_byId ?st3" "to_byId (snd ?R)"] by blast
  have c3: "uuid_next ?st3 = Suc ?i" by (simp add: store_row_def)
  show ?case
    unfolding normalizeFields_leaf[OF Leaf.hyps] fst_conv snd_conv
  proof (intro conjI ballI allI impI)
    fix k assume "k \<in> set (?i # fst ?R)"
    then consider "k = ?i" | "k \<in> set (fst ?R)" by auto
    then show "level_ok N (to_byId (snd ?R)) paths d mf pid k"
    proof cases
      case 1
      then show ?thesis using lev' by simp
    next
      case 2
      then show ?thesis using ih by blast
    qed
  next
    fix k assume "?i \<le> k \<and> k < uuid_next (snd ?R) \<and> k \<notin> set (?i # fst ?R)"
    then have "uuid_next ?st3 \<le> k \<and> k < uuid_next (snd ?R) \<and> k \<notin> set (fst ?R)"
      using c3 by auto
    then show "inner_ok N (to_byId (snd ?R)) k" using ih by blast
  qed
next
  case (Node propName v es st paths d mf pid)
  let ?i = "uuid_next st"
  let ?mfc = "canHaveMultiFields (entry_meta propName v mf)"
  let ?sub = "normalizeFields (entry_children propName v mf) (enter d st) (paths @ [propName])
                (Suc d) ?mfc (Some ?i)"
  let ?row = "entry_row ?i pid d mf paths propName v (Some (fst ?sub))"
  let ?st3 = "store_row ?i ?row (snd ?sub)"
  let ?R = "normalizeFields es ?st3 paths d mf pid"
  let ?t1 = "to_byId (snd ?sub)"
  let ?t3 = "to_byId ?st3"
  have pre1: "dom (to_byId (enter d st)) \<subseteq> {..<uuid_next (enter d st)}"
    using Node.prems(1) by (auto simp: enter_def)
  have nm: "N \<longrightarrow> name (with_name propName v) = propName"
    using Node.prems(2) plain_head[of propName v es] by blast
  have pl: "N \<longrightarrow> plain es"
    using Node.prems(2) plain_tail[of propName v es] by blast
  have plk: "N \<longrightarrow> plain (entry_children propName v mf)"
    using Node.prems(2) plain_node[OF _ Node.hyps, of es] by blast
  note ih1 = Node.IH(1)[OF pre1 plk]
  note fr1 = norm_frame[OF pre1, of "entry_children propName v mf" "paths @ [propName]" "Suc d"
      ?mfc "Some ?i"]
  have n1: "Suc ?i \<le> uuid_next (snd ?sub)"
    and dom1: "dom ?t1 = dom (to_byId st) \<union> {Suc ?i ..< uuid_next (snd ?sub)}"
    and ids1: "set (fst ?sub) \<subseteq> {Suc ?i ..< uuid_next (snd ?sub)}"
    using fr1 by (simp_all add: enter_def)
  have fresh: "?i \<notin> dom ?t1" using dom1 Node.prems(1) by auto
  have le13: "?t1 \<subseteq>\<^sub>m ?t3" using fresh by (auto simp: store_row_def map_le_def)
  have t3i: "?t3 ?i = Some ?row" by (simp add: store_row_def)
  have pre3: "dom ?t3 \<subseteq> {..<uuid_next ?st3}"
    using dom1 n1 Node.prems(1) by (auto simp: store_row_def)
  note ih3 = Node.IH(2)[OF pre3 pl]
  note fr3 = norm_frame[OF pre3, of es paths d mf pid]
  have c3: "uuid_next ?st3 = uuid_next (snd ?sub)" by (simp add: store_row_def)
  have le3R: "?t3 \<subseteq>\<^sub>m to_byId (snd ?R)" using fr3 by blast
  have kids1: "\<And>c. c \<in> set (fst ?sub) \<Longrightarrow> level_ok N ?t3 (paths @ [propName]) (Suc d) ?mfc (Some ?i) c"
    using ih1 level_ok_mono[OF le13] by blast
  have lev: "level_ok N ?t3 paths d mf pid ?i"
    unfolding level_ok_def
  proof (intro exI conjI)
    show "?t3 ?i = Some ?row" by (rule t3i)
    have "\<exists>cr. ?t3 c = Some cr \<and> parentId cr = Some ?i" if "c \<in> set (fst ?sub)" for c
      using kids1[OF that] unfolding level_ok_def by blast
    then show "kids_ok ?t3 ?i ?row"
      using Node.hyps by (simp add: kids_ok_def)
    show "N \<longrightarrow> path ?row = path_of paths (name (source ?row))"
      using nm by simp
  qed simp_all
  have child_inner: "inner_ok N ?t3 c" if c: "c \<in> set (fst ?sub)" for c
  proof -
    from kids1[OF c] obtain r where r: "?t3 c = Some r" "id_field r = c" "parentId r = Some ?i"
      "nestedDepth r = Suc d" "N \<longrightarrow> path r = path_of (paths @ [propName]) (name (source r))"
      "kids_ok ?t3 c r"
      unfolding level_ok_def by blast
    have "N \<longrightarrow> path r = path_of paths propName @ ''.'' @ name (source r)"
      using r(5) by (simp add: path_of_def[of "paths @ [propName]"] join_dot_snoc)
    then have "link_ok N ?t3 c r"
      using r(2,3,4,6) t3i c by (simp add: link_ok_def)
    then show ?thesis using r by (simp add: inner_ok_def)
  qed
  have deep_inner: "inner_ok N ?t3 k"
    if "Suc ?i \<le> k" "k < uuid_next (snd ?sub)" "k \<notin> set (fst ?sub)" for k
  proof -
    from ih1 that have "inner_ok N ?t1 k" by (simp add: enter_def)
    then show ?thesis by (rule inner_ok_mono[OF le13])
  qed
  show ?case
    unfolding normalizeFields_node[OF Node.hyps] Let_def fst_conv snd_conv
  proof (intro conjI ballI allI impI)
    fix k assume "k \<in> set (?i # fst ?R)"
    then consider "k = ?i" | "k \<in> set (fst ?R)" by auto
    then show "level_ok N (to_byId (snd ?R)) paths d mf pid k"
    proof cases
      case 1
      then show ?thesis using level_ok_mono[OF le3R lev] by simp
    next
      case 2
      then show ?thesis using ih3 by blast
    qed
  next
    fix k assume k: "?i \<le> k \<and> k < uuid_next (snd ?R) \<and> k \<notin> set (?i # fst ?R)"
    show "inner_ok N (to_byId (snd ?R)) k"
    proof (cases "k < uuid_next (snd ?sub)")
      case True
      with k have "Suc ?i \<le> k" by auto
      then have "inner_ok N ?t3 k"
        using True child_inner[of k] deep_inner[of k] by blast
      then show ?thesis by (rule inner_ok_mono[OF le3R])
    next
      case False
      then have "uuid_next ?st3 \<le> k \<and> k < uuid_next (snd ?R) \<and> k \<notin> set (fst ?R)"
        using k c3 by auto
      then show ?thesis using ih3 by blast
    qed
  qed
qed

lemma norm_sources:
  "to_byId (snd (normalizeFields es st paths d mf pid)) k = Some r \<Longrightarrow>
   to_byId st k = Some r \<or> (properties (source r) = None \<and> fields_member (source r) = None)"
proof (induction es st paths d mf pid rule: normalizeFields_cases_induct)
  case (Nil st paths d mf pid)
  then show ?case by simp
next
  case (Leaf propName v es st paths d mf pid)
  from Leaf.prems have "to_byId (snd (normalizeFields es
      (store_row (uuid_next st) (entry_row (uuid_next st) pid d mf paths propName v None)
         (st\<lparr> uuid_next := Suc (uuid_next st) \<rparr>)) paths d mf pid)) k = Some r"
    by (simp add: normalizeFields_leaf[OF Leaf.hyps])
  from Leaf.IH[OF this] show ?case
    by (auto simp: store_row_def split: if_splits)
next
  case (Node propName v es st paths d mf pid)
  let ?sub = "normalizeFields (entry_children propName v mf) (enter d st) (paths @ [propName])
                (Suc d) (canHaveMultiFields (entry_meta propName v mf)) (Some (uuid_next st))"
  from Node.prems have "to_byId (snd (normalizeFields es
      (store_row (uuid_next st)
         (entry_row (uuid_next st) pid d mf paths propName v (Some (fst ?sub))) (snd ?sub))
      paths d mf pid)) k = Some r"
    by (simp add: normalizeFields_node[OF Node.hyps] Let_def)
  from Node.IH(2)[OF this] consider
    "k = uuid_next st" "r = entry_row (uuid_next st) pid d mf paths propName v (Some (fst ?sub))"
    | "to_byId (snd ?sub) k = Some r" | "properties (source r) = None \<and> fields_member (source r) = None"
    by (auto simp: store_row_def split: if_splits)
  then show ?case
  proof cases
    case 1
    then show ?thesis by simp
  next
    case 2
    from Node.IH(1)[OF this] show ?thesis by (simp add: enter_def)
  next
    case 3
    then show ?thesis by simp
  qed
qed

section \<open>The table that \<^verbatim>\<open>normalize\<close> returns\<close>

lemma normalize_sel:
  "byId (normalize T) = to_byId (snd (normalizeFields T start_state [] 0 False None))"
  "rootLevelFields (normalize T) = fst (normalizeFields T start_state [] 0 False None)"
  by (simp_all add: normalize_def start_state_def split_beta)

lemma start_state_pre: "dom (to_byId start_state) \<subseteq> {..<uuid_next start_state}"
  by (simp add: start_state_def)

lemma normalize_dom:
  "dom (byId (normalize T)) = {..<uuid_next (snd (normalizeFields T start_state [] 0 False None))}"
  using norm_frame[OF start_state_pre, of T "[]" 0 False None]
  by (auto simp: normalize_sel start_state_def)

lemma normalize_link:
  assumes "byId (normalize T) k = Some r" and "N \<longrightarrow> plain T"
  shows "link_ok N (byId (normalize T)) k r
    \<and> (parentId r = None \<longleftrightarrow> k \<in> set (rootLevelFields (normalize T)))
    \<and> (parentId r = None \<longrightarrow> nestedDepth r = 0)"
proof -
  let ?N = "normalizeFields T start_state [] 0 False None"
  note rows = norm_rows[OF start_state_pre assms(2), of "[]" 0 False None]
  have kdom: "k < uuid_next (snd ?N)"
    using assms(1) normalize_dom[of T] by (auto simp: dom_def)
  show ?thesis
  proof (cases "k \<in> set (fst ?N)")
    case True
    with rows have "level_ok N (to_byId (snd ?N)) [] 0 False None k" by blast
    with assms(1) True show ?thesis
      by (auto simp: level_ok_def normalize_sel link_ok_def path_of_def)
  next
    case False
    with rows kdom have "inner_ok N (to_byId (snd ?N)) k"
      by (simp add: start_state_def)
    with assms(1) False show ?thesis
      by (auto simp: inner_ok_def normalize_sel)
  qed
qed

lemma normalize_row:
  assumes "byId (normalize T) k = Some r"
  shows "link_ok False (byId (normalize T)) k r"
    and "parentId r = None \<longleftrightarrow> k \<in> set (rootLevelFields (normalize T))"
    and "parentId r = None \<Longrightarrow> nestedDepth r = 0"
  using normalize_link[OF assms, of False] by simp_all


text \<open>
  The condition on the tree is needed.  Where a value carries a member \<^verbatim>\<open>name\<close>, the row has
  that member as its \<^verbatim>\<open>source.name\<close> and the key in its path.
\<close>

lemma named_value_rows:
  "byId (normalize named_value_tree) 0 = Some
    \<lparr> childFieldsName = Some Fields_name, canHaveChildFields = False,
      hasChildFields = False, canHaveMultiFields = True, hasMultiFields = False,
      isExpanded = False, childFields = None, id_field = 0, parentId = None,
      nestedDepth = 0, isMultiField = False, path = ''foo'',
      source = \<lparr> name = ''bar'', ftype = ''text'', params = [], properties = None,
                 fields_member = None, undefined_member = None \<rparr> \<rparr>"
  "rootLevelFields (normalize named_value_tree) = [0]"
  by code_simp+

lemma named_value_not_well_formed:
  "\<not> well_formed_table (byId (normalize named_value_tree))"
proof
  assume "well_formed_table (byId (normalize named_value_tree))"
  then have "row_ok (byId (normalize named_value_tree)) 0
      (the (byId (normalize named_value_tree) 0))"
    by (simp add: well_formed_table_def named_value_rows)
  then show False
    by (simp add: named_value_rows row_ok_def parent_ok_def)
qed

section \<open>Parent chains in a table\<close>

text \<open>
  Where every row has its links, the depth grows by one at each step from parent to child,
  so following \<^verbatim>\<open>parentId\<close> from any row ends, and the chain it runs through visits no row
  twice.  In a well-formed table the path of the row is the dot-join of the names along the
  chain.
\<close>

lemma chain_links:
  assumes links: "\<forall>k r. tbl k = Some r \<longrightarrow> link_ok N tbl k r" and ch: "parent_chain tbl k ch"
  shows "\<exists>r. tbl k = Some r \<and> (N \<longrightarrow> path r = join_dot (map (live_name tbl) ch))
      \<and> ch \<noteq> [] \<and> last ch = k \<and> distinct ch
      \<and> (\<forall>j \<in> set ch. \<exists>rj. tbl j = Some rj \<and> nestedDepth rj \<le> nestedDepth r)
      \<and> (\<exists>rh. tbl (hd ch) = Some rh \<and> parentId rh = None)"
  using ch
proof (induction rule: parent_chain.induct)
  case (root k r)
  from links root(1) have "link_ok N tbl k r" by blast
  with root show ?case by (simp add: link_ok_def live_name_def)
next
  case (child k r p ch)
  from links child(1) have ok: "link_ok N tbl k r" by blast
  from child.IH obtain pr where pr: "tbl p = Some pr"
    "N \<longrightarrow> path pr = join_dot (map (live_name tbl) ch)" "ch \<noteq> []" "distinct ch"
    "\<forall>j \<in> set ch. \<exists>rj. tbl j = Some rj \<and> nestedDepth rj \<le> nestedDepth pr"
    "\<exists>rh. tbl (hd ch) = Some rh \<and> parentId rh = None"
    by blast
  from ok child(2) pr(1) have dep: "nestedDepth r = nestedDepth pr + 1"
    and pth: "N \<longrightarrow> path r = path pr @ ''.'' @ name (source r)"
    by (auto simp: link_ok_def)
  have notin: "k \<notin> set ch"
  proof
    assume "k \<in> set ch"
    with pr(5) child(1) have "nestedDepth r \<le> nestedDepth pr" by fastforce
    with dep show False by simp
  qed
  have "N \<longrightarrow> path r = join_dot (map (live_name tbl) (ch @ [k]))"
    using pth pr(2,3) child(1) by (simp add: join_dot_snoc_if live_name_def)
  moreover have "\<forall>j \<in> set (ch @ [k]). \<exists>rj. tbl j = Some rj \<and> nestedDepth rj \<le> nestedDepth r"
    using pr(5) dep child(1) by fastforce
  ultimately show ?case
    using child(1) pr(3,4,6) notin by simp
qed

lemma chain_links_exists:
  assumes links: "\<forall>k r. tbl k = Some r \<longrightarrow> link_ok N tbl k r"
  shows "tbl k = Some r \<Longrightarrow> \<exists>ch. parent_chain tbl k ch"
proof (induction "nestedDepth r" arbitrary: k r rule: less_induct)
  case less
  from links less.prems have ok: "link_ok N tbl k r" by blast
  show ?case
  proof (cases "parentId r")
    case None
    with less.prems show ?thesis by (blast intro: parent_chain.root)
  next
    case (Some p)
    with ok obtain pr where pr: "tbl p = Some pr" "nestedDepth r = nestedDepth pr + 1"
      by (auto simp: link_ok_def)
    then have "nestedDepth pr < nestedDepth r" by simp
    from less.hyps[OF this pr(1)] obtain ch where "parent_chain tbl p ch" by blast
    with less.prems Some show ?thesis by (blast intro: parent_chain.child)
  qed
qed




section \<open>Properties of the rows of \<^verbatim>\<open>normalize\<close>\<close>

text \<open>
  C10.  No row that \<^verbatim>\<open>normalize\<close> produces has a \<^verbatim>\<open>properties\<close> or a \<^verbatim>\<open>fields\<close> member in
  its \<^verbatim>\<open>source\<close>, whatever the type of the field: the destructuring removes both.
\<close>

theorem normalize_source_without_containers:
  assumes "byId (normalize T) k = Some r"
  shows "properties (source r) = None \<and> fields_member (source r) = None"
  using norm_sources[of T start_state "[]" 0 False None k r] assms
  by (simp add: normalize_sel start_state_def)

lemma stray_container_rows:
  "byId (normalize stray_container_tree) 0 = Some
    \<lparr> childFieldsName = Some Properties_name, canHaveChildFields = True,
      hasChildFields = False, canHaveMultiFields = False, hasMultiFields = False,
      isExpanded = False, childFields = None, id_field = 0, parentId = None,
      nestedDepth = 0, isMultiField = False, path = ''myObject'',
      source = \<lparr> name = ''myObject'', ftype = ''object'', params = [], properties = None,
                 fields_member = None, undefined_member = None \<rparr> \<rparr>"
  by code_simp

theorem normalize_source_without_containers_witness:
  "v_fields (snd (hd stray_container_tree)) = Some [(''raw'', FieldValue ''keyword'' [] None None None)]
   \<and> (\<exists>r. byId (normalize stray_container_tree) 0 = Some r
          \<and> ftype (source r) = ''object''
          \<and> properties (source r) = None \<and> fields_member (source r) = None)"
proof -
  have "v_fields (snd (hd stray_container_tree))
      = Some [(''raw'', FieldValue ''keyword'' [] None None None)]"
    by (simp add: stray_container_tree_def)
  moreover have "\<exists>r. byId (normalize stray_container_tree) 0 = Some r
          \<and> ftype (source r) = ''object''
          \<and> properties (source r) = None \<and> fields_member (source r) = None"
    using normalize_source_without_containers[OF stray_container_rows]
    by (simp add: stray_container_rows)
  ultimately show ?thesis by (rule conjI)
qed


text \<open>The rows of the table of the example tree.\<close>

lemma example_rows:
  "byId (normalize example_tree) 0 = Some
    \<lparr> childFieldsName = Some Properties_name, canHaveChildFields = True,
      hasChildFields = True, canHaveMultiFields = False, hasMultiFields = False,
      isExpanded = False, childFields = Some [1], id_field = 0, parentId = None,
      nestedDepth = 0, isMultiField = False, path = ''myObject'',
      source = \<lparr> name = ''myObject'', ftype = ''object'', params = [], properties = None,
                 fields_member = None, undefined_member = None \<rparr> \<rparr>"
  "byId (normalize example_tree) 1 = Some
    \<lparr> childFieldsName = Some Fields_name, canHaveChildFields = False,
      hasChildFields = False, canHaveMultiFields = True, hasMultiFields = True,
      isExpanded = False, childFields = Some [2], id_field = 1, parentId = Some 0,
      nestedDepth = 1, isMultiField = False, path = ''myObject.name'',
      source = \<lparr> name = ''name'', ftype = ''text'', params = [], properties = None,
                 fields_member = None, undefined_member = None \<rparr> \<rparr>"
  "byId (normalize example_tree) 2 = Some
    \<lparr> childFieldsName = Some Fields_name, canHaveChildFields = False,
      hasChildFields = False, canHaveMultiFields = False, hasMultiFields = False,
      isExpanded = False, childFields = None, id_field = 2, parentId = Some 1,
      nestedDepth = 2, isMultiField = True, path = ''myObject.name.raw'',
      source = \<lparr> name = ''raw'', ftype = ''keyword'', params = [], properties = None,
                 fields_member = None, undefined_member = None \<rparr> \<rparr>"
  "rootLevelFields (normalize example_tree) = [0]"
  by code_simp+

text \<open>
  C2.  The specification lets a multi-field member share the depth of the row that holds
  it.  In the example tree the multi-field \<^verbatim>\<open>raw\<close> is at depth 2, one level below the text
  field \<^verbatim>\<open>name\<close> that holds it, so the statement fails on the code.
\<close>

theorem multi_field_depth_counterexample:
  "\<exists>r p. byId (normalize example_tree) 2 = Some r \<and> isMultiField r = True
      \<and> parentId r = Some 1 \<and> byId (normalize example_tree) 1 = Some p
      \<and> nestedDepth r = 2 \<and> nestedDepth p = 1 \<and> nestedDepth r \<noteq> nestedDepth p"
  by (simp add: example_rows del: One_nat_def)

text \<open>
  C2, amended.  In every table that \<^verbatim>\<open>normalize\<close> produces, a row with a parent is exactly
  one level deeper than its parent, whether it is a child field or a multi-field member,
  and a row without a parent is at depth 0.
\<close>

theorem normalize_child_depth:
  assumes "byId (normalize T) k = Some r"
  shows "(parentId r = None \<longrightarrow> nestedDepth r = 0)
    \<and> (\<forall>p. parentId r = Some p \<longrightarrow>
          (\<exists>pr. byId (normalize T) p = Some pr \<and> nestedDepth r = nestedDepth pr + 1))"
  using normalize_row(1,3)[OF assms]
  by (auto simp: link_ok_def)

theorem normalize_child_depth_witness:
  "\<exists>r pr. byId (normalize example_tree) 2 = Some r \<and> isMultiField r = True
     \<and> parentId r = Some 1 \<and> byId (normalize example_tree) 1 = Some pr
     \<and> nestedDepth r = nestedDepth pr + 1"
  using normalize_child_depth[OF example_rows(3)]
  by (simp add: example_rows del: One_nat_def)

text \<open>
  C6.  In every table that \<^verbatim>\<open>normalize\<close> produces, the identifiers in a row's
  \<^verbatim>\<open>childFields\<close> and its \<^verbatim>\<open>parentId\<close> are keys of the table, and the row has a parent chain:
  following \<^verbatim>\<open>parentId\<close> ends, visits no row twice and ends in a row that is listed in
  \<^verbatim>\<open>rootLevelFields\<close>.
\<close>

theorem normalize_references_resolve:
  assumes "byId (normalize T) k = Some r"
  shows "(\<forall>cs c. childFields r = Some cs \<and> c \<in> set cs \<longrightarrow> c \<in> dom (byId (normalize T)))
    \<and> (\<forall>p. parentId r = Some p \<longrightarrow> p \<in> dom (byId (normalize T)))
    \<and> (\<exists>h t. parent_chain (byId (normalize T)) k (h # t) \<and> distinct (h # t)
          \<and> h \<in> set (rootLevelFields (normalize T)))"
proof (intro conjI allI impI)
  note ok = normalize_row(1)[OF assms]
  fix cs c assume "childFields r = Some cs \<and> c \<in> set cs"
  with ok show "c \<in> dom (byId (normalize T))"
    by (auto simp: link_ok_def kids_ok_def)
next
  note ok = normalize_row(1)[OF assms]
  fix p assume "parentId r = Some p"
  with ok show "p \<in> dom (byId (normalize T))"
    by (auto simp: link_ok_def)
next
  have links: "\<forall>k r. byId (normalize T) k = Some r \<longrightarrow> link_ok False (byId (normalize T)) k r"
    using normalize_row(1) by blast
  from chain_links_exists[OF links assms] obtain ch
    where ch: "parent_chain (byId (normalize T)) k ch" by blast
  from chain_links[OF links ch] obtain rh where
    f: "ch \<noteq> []" "distinct ch" "byId (normalize T) (hd ch) = Some rh" "parentId rh = None"
    by blast
  from f(1) obtain h t where ht: "ch = h # t" by (cases ch) auto
  with f(3,4) have "h \<in> set (rootLevelFields (normalize T))"
    using normalize_row(2)[of T h rh] by simp
  with ch f(2) ht show "\<exists>h t. parent_chain (byId (normalize T)) k (h # t) \<and> distinct (h # t)
          \<and> h \<in> set (rootLevelFields (normalize T))" by blast
qed

theorem normalize_references_resolve_witness:
  "2 \<in> dom (byId (normalize example_tree)) \<and> 0 \<in> dom (byId (normalize example_tree))
   \<and> (\<exists>h t. parent_chain (byId (normalize example_tree)) 2 (h # t) \<and> distinct (h # t)
          \<and> h \<in> set (rootLevelFields (normalize example_tree)))"
  using normalize_references_resolve[OF example_rows(2)]
    normalize_references_resolve[OF example_rows(3)]
  by (simp add: example_rows dom_def del: One_nat_def)

section \<open>The round trip through the table\<close>







lemma entry_row_source [simp]:
  "source (entry_row i pid d mf paths propName v cs) = rest_of (with_name propName v)"
  "childFieldsName (entry_row i pid d mf paths propName v cs)
     = childFieldsName (entry_meta propName v mf)"
  by (simp_all add: entry_row_def normalizedField_of_def)

lemma rest_of_name [simp]: "name (rest_of f) = name f"
  by (simp add: rest_of_def)





text \<open>
  Three more calls of \<^verbatim>\<open>deNormalize\<close>.  A field called \<^verbatim>\<open>__proto__\<close> does not come back: the
  assignment \<^verbatim>\<open>to[name] = field\<close> sets the prototype of \<^verbatim>\<open>to\<close> and adds no entry.  A value
  that carries a member \<^verbatim>\<open>name\<close> comes back under that name and without the member.  For a
  row with \<^verbatim>\<open>childFields\<close> and no \<^verbatim>\<open>childFieldsName\<close> the call returns a value with a member
  called \<^verbatim>\<open>undefined\<close>.
\<close>

lemma roundtrip_proto_field:
  "deNormalize 1 (normalize proto_tree)
     = Some (Inr [(''a'', FieldValue ''long'' [] None None None)])"
  by code_simp

lemma roundtrip_named_value:
  "deNormalize 1 (normalize named_value_tree)
     = Some (Inr [(''bar'', FieldValue ''text'' [] None None None)])"
  by code_simp

lemma deNormalize_untyped_row:
  "deNormalize 2 \<lparr> byId = [0 \<mapsto> untyped_row], rootLevelFields = [0], maxNestedDepth = 0 \<rparr>
     = Some (Inr [(''location'', FieldValue ''geo_point'' [] None None (Some []))])"
  by (simp add: deNormalize_def untyped_row_def without_name_def numeral_2_eq_2)




section \<open>The frame of a rename\<close>

lemma update_frame:
  "updateFieldPath fuel f ps s = Some (Inr s') \<Longrightarrow>
     caller_byId s' = caller_byId s
     \<and> (\<forall>j. \<not> subtree (caller_byId s) f j \<longrightarrow> updatedById s' j = updatedById s j)"
  "updateChildPaths fuel rows ps s = Some (Inr s') \<Longrightarrow>
     caller_byId s' = caller_byId s
     \<and> (\<forall>j. (\<forall>cr. Some cr \<in> set rows \<longrightarrow> \<not> subtree (caller_byId s) cr j)
            \<longrightarrow> updatedById s' j = updatedById s j)"
proof (induction fuel f ps s and fuel rows ps s arbitrary: s' and s'
    rule: updateFieldPath_updateChildPaths.induct)
  case (1 f ps s)
  then show ?case by simp
next
  case (2 fuel f ps s)
  let ?nm = "name (source f)"
  let ?p = "if length ps = 0 then ?nm else join_dot ps @ ''.'' @ ?nm"
  let ?s1 = "s\<lparr> updatedById := (updatedById s)(id_field f \<mapsto> f\<lparr> path := ?p \<rparr>) \<rparr>"
  show ?case
  proof (cases "hasChildFields f \<or> hasMultiFields f")
    case False
    with 2(2) have "s' = ?s1" by (simp add: Let_def)
    then show ?thesis by (auto intro: subtree.self)
  next
    case True
    with 2(2) obtain cs where cs: "childFields f = Some cs"
      and run: "updateChildPaths fuel (map (caller_byId ?s1) cs) (ps @ [?nm]) ?s1 = Some (Inr s')"
      by (auto simp: Let_def split: option.splits)
    from 2(1)[OF refl refl refl True cs run]
    have c: "caller_byId s' = caller_byId s"
      and fr: "\<And>j. (\<forall>cr. Some cr \<in> set (map (caller_byId s) cs) \<longrightarrow> \<not> subtree (caller_byId s) cr j)
            \<Longrightarrow> updatedById s' j = updatedById ?s1 j"
      by simp_all
    have "updatedById s' j = updatedById s j" if n: "\<not> subtree (caller_byId s) f j" for j
    proof -
      have "j \<noteq> id_field f" using n subtree.self by blast
      moreover have "\<not> subtree (caller_byId s) cr j" if "Some cr \<in> set (map (caller_byId s) cs)" for cr
      proof
        assume st: "subtree (caller_byId s) cr j"
        from that obtain c where "c \<in> set cs" "caller_byId s c = Some cr" by auto
        with True cs st have "subtree (caller_byId s) f j"
          by (auto intro: subtree.kid simp: has_kids_def)
        with n show False by simp
      qed
      ultimately show ?thesis using fr[of j] by simp
    qed
    with c show ?thesis by simp
  qed
next
  case (3 fuel ps s)
  then show ?case by simp
next
  case (4 fuel cs ps s)
  then show ?case by simp
next
  case (5 fuel c cs ps s)
  from 5(3) obtain s1 where s1: "updateFieldPath fuel c ps s = Some (Inr s1)"
    and rest: "updateChildPaths fuel cs ps s1 = Some (Inr s')"
    by (auto split: option.splits sum.splits)
  from 5(1)[OF s1] have a: "caller_byId s1 = caller_byId s"
    "\<And>j. \<not> subtree (caller_byId s) c j \<Longrightarrow> updatedById s1 j = updatedById s j"
    by simp_all
  from 5(2)[OF s1 refl rest] a(1) have b: "caller_byId s' = caller_byId s"
    "\<And>j. (\<forall>cr. Some cr \<in> set cs \<longrightarrow> \<not> subtree (caller_byId s) cr j)
       \<Longrightarrow> updatedById s' j = updatedById s1 j"
    by simp_all
  show ?case using a(2) b by simp
qed


text \<open>
  C4.  \<^verbatim>\<open>updateFieldsPathAfterFieldNameChange\<close> leaves the caller's table as it was, and in
  the table it returns every row outside the subtree of the renamed field (the field
  itself and the rows the walk reaches from it through \<^verbatim>\<open>childFields\<close>) is the row of the
  caller's table.
\<close>

theorem updateFieldsPath_frame:
  assumes "updateFieldsPathAfterFieldNameChange fuel field tbl
             = Some (Inr ((p, tbl'), tbl_after))"
  shows "tbl_after = tbl \<and> (\<forall>j. \<not> subtree tbl field j \<longrightarrow> tbl' j = tbl j)"
proof -
  let ?s0 = "\<lparr> caller_byId = tbl, updatedById = tbl \<rparr>"
  from assms obtain ps s where run: "updateFieldPath fuel field ps ?s0 = Some (Inr s)"
    and res: "tbl' = updatedById s" "tbl_after = caller_byId s"
    by (auto simp: updateFieldsPathAfterFieldNameChange_def Let_def
        split: option.splits sum.splits)
  from update_frame(1)[OF run] res show ?thesis by simp
qed

lemma example_rename:
  "updateFieldsPathAfterFieldNameChange 2 renamed_name_row (byId (normalize example_tree))
     = Some (Inr ((''myObject.title'', example_renamed), byId (normalize example_tree)))"
  by (simp add: updateFieldsPathAfterFieldNameChange_def renamed_name_row_def Let_def
      example_renamed_def example_rows[unfolded numeral_2_eq_2 One_nat_def] numeral_2_eq_2)

lemma example_subtree:
  "subtree (byId (normalize example_tree)) renamed_name_row j \<longleftrightarrow> j = 1 \<or> j = 2"
proof
  assume "subtree (byId (normalize example_tree)) renamed_name_row j"
  then show "j = 1 \<or> j = 2"
  proof (cases rule: subtree.cases)
    case self
    then show ?thesis by (simp add: renamed_name_row_def)
  next
    case (kid cs c cr)
    then have cr: "byId (normalize example_tree) 2 = Some cr" "c = 2"
      by (auto simp: renamed_name_row_def)
    from kid(5) show ?thesis
    proof (cases rule: subtree.cases)
      case self
      then show ?thesis using cr by (auto simp: example_rows)
    next
      case (kid cs' c' cr')
      then show ?thesis using cr by (auto simp: example_rows has_kids_def)
    qed
  qed
next
  assume "j = 1 \<or> j = 2"
  then show "subtree (byId (normalize example_tree)) renamed_name_row j"
  proof
    assume "j = 1"
    then show ?thesis using subtree.self[of _ renamed_name_row]
      by (simp add: renamed_name_row_def)
  next
    assume j: "j = 2"
    have "subtree (byId (normalize example_tree)) (the (byId (normalize example_tree) 2)) 2"
      using subtree.self[of "byId (normalize example_tree)" "the (byId (normalize example_tree) 2)"]
      by (simp add: example_rows)
    then show ?thesis
      using j subtree.kid[of renamed_name_row "[2]" 2 "byId (normalize example_tree)"
          "the (byId (normalize example_tree) 2)" 2]
      by (simp add: renamed_name_row_def has_kids_def example_rows)
  qed
qed

theorem updateFieldsPath_frame_witness:
  "\<not> subtree (byId (normalize example_tree)) renamed_name_row 0
   \<and> example_renamed 0 = byId (normalize example_tree) 0
   \<and> subtree (byId (normalize example_tree)) renamed_name_row 2
   \<and> example_renamed 2 \<noteq> byId (normalize example_tree) 2"
  using updateFieldsPath_frame[OF example_rename]
  by (simp add: example_subtree example_renamed_def example_rows)

section \<open>The table after a rename\<close>



















section \<open>Paths after a rename\<close>




end
